theory Spec2Isabelle
  imports Main
begin

section \<open>The build.prop reader of twrpdtgen\<close>

text \<open>
  A shallow embedding of \<^verbatim>\<open>twrpdtgen/info_extractors/buildprop.py\<close>.

  A Python \<^verbatim>\<open>str\<close> is modelled as a \<^typ>\<open>string\<close>; one \<^typ>\<open>char\<close> stands for one code
  point below 256. The file content is the value returned by \<^verbatim>\<open>Path.read_text\<close>, that is
  the text after Python's newline translation, in which a line ends with the single
  character U+000A.
\<close>

subsection \<open>The regular expressions\<close>

definition newline :: char where
  "newline = CHR 0x0A"

text \<open>
  Every pattern of the module has the shape \<^verbatim>\<open>(?:k1|k2|...)(.*)$\<close> and is compiled with
  \<^verbatim>\<open>re.MULTILINE\<close>. It is kept as the list of its alternatives \<^verbatim>\<open>k1\<close>, \<^verbatim>\<open>k2\<close>, ... in the
  order of the source, each alternative as the text between the bars. In that text the
  only character that is special to \<^verbatim>\<open>re\<close> is the dot, which is not escaped in the source:
  it matches any character but a newline. Every other character matches itself.
\<close>

type_synonym regex = "string list"

definition DEVICE_CODENAME_RE :: regex where
  "DEVICE_CODENAME_RE =
     [''ro.product.device='', ''ro.system.device='',
      ''ro.vendor.device='', ''ro.product.system.device='']"

definition DEVICE_MANUFACTURER_RE :: regex where
  "DEVICE_MANUFACTURER_RE =
     [''ro.product.manufacturer='', ''ro.product.system.manufacturer='',
      ''ro.product.vendor.manufacturer='']"

definition DEVICE_PLATFORM_RE :: regex where
  "DEVICE_PLATFORM_RE = [''ro.board.platform='', ''ro.hardware.keystore='']"

definition DEVICE_BRAND_RE :: regex where
  "DEVICE_BRAND_RE =
     [''ro.product.brand='', ''ro.product.system.brand='',
      ''ro.product.vendor.brand='']"

definition DEVICE_MODEL_RE :: regex where
  "DEVICE_MODEL_RE =
     [''ro.product.model='', ''ro.product.system.model='',
      ''ro.product.vendor.model='']"

definition DEVICE_ARCH_RE :: regex where
  "DEVICE_ARCH_RE = [''ro.product.cpu.abi='', ''ro.product.cpu.abilist='']"

definition DEVICE_IS_AB_RE :: regex where
  "DEVICE_IS_AB_RE = [''ro.build.ab_update=true'']"

text \<open>One pattern character against one character of the subject.\<close>

definition atom_matches :: "char \<Rightarrow> char \<Rightarrow> bool" where
  "atom_matches p c = (if p = CHR ''.'' then c \<noteq> newline else c = p)"

text \<open>
  One alternative against the subject at its current position: the rest of the subject
  after the alternative, or \<open>None\<close> when the alternative does not match there.
\<close>

fun match_key :: "string \<Rightarrow> string \<Rightarrow> string option" where
  "match_key [] s = Some s"
| "match_key (p # ps) [] = None"
| "match_key (p # ps) (c # cs) = (if atom_matches p c then match_key ps cs else None)"

text \<open>
  \<^verbatim>\<open>$\<close> under \<^verbatim>\<open>re.MULTILINE\<close>: the position is the end of the subject or stands before a
  newline.
\<close>

fun at_eol :: "string \<Rightarrow> bool" where
  "at_eol [] = True"
| "at_eol (c # cs) = (c = newline)"

text \<open>
  \<^verbatim>\<open>(.*)$\<close>: the greedy star first takes every character up to the next newline, then
  gives characters back one at a time until \<^verbatim>\<open>$\<close> matches. \<open>star_dollar n r\<close> tries the
  star with \<open>n\<close> characters, then with fewer; the result is group 1.
\<close>

fun star_dollar :: "nat \<Rightarrow> string \<Rightarrow> string option" where
  "star_dollar 0 r = (if at_eol r then Some [] else None)"
| "star_dollar (Suc n) r =
     (if at_eol (drop (Suc n) r) then Some (take (Suc n) r) else star_dollar n r)"

definition group_eol :: "string \<Rightarrow> string option" where
  "group_eol r = star_dollar (length (takeWhile (\<lambda>c. c \<noteq> newline) r)) r"

text \<open>
  The whole pattern at one position of the subject: the alternatives are tried from left
  to right, and an alternative after which the tail of the pattern fails is given up for
  the next one. The result is group 1 of the match.
\<close>

fun match_here :: "regex \<Rightarrow> string \<Rightarrow> string option" where
  "match_here [] s = None"
| "match_here (k # ks) s =
     (case match_key k s of
        None \<Rightarrow> match_here ks s
      | Some r \<Rightarrow> (case group_eol r of None \<Rightarrow> match_here ks s | Some g \<Rightarrow> Some g))"

text \<open>
  \<^verbatim>\<open>regex.search\<close>: the start positions are tried from left to right, the end of the
  subject included, and the first position with a match wins. A match is the pair of its
  start position (\<^verbatim>\<open>match.start()\<close>) and its group 1 (\<^verbatim>\<open>match.group(1)\<close>).
\<close>

fun search_from :: "regex \<Rightarrow> nat \<Rightarrow> string \<Rightarrow> (nat \<times> string) option" where
  "search_from re i [] = map_option (Pair i) (match_here re [])"
| "search_from re i (c # cs) =
     (case match_here re (c # cs) of
        Some g \<Rightarrow> Some (i, g)
      | None \<Rightarrow> search_from re (Suc i) cs)"

definition search :: "regex \<Rightarrow> string \<Rightarrow> (nat \<times> string) option" where
  "search re s = search_from re 0 s"

subsection \<open>The reader\<close>

datatype error =
    AssertionError string
  | ReadError

text \<open>
  What the constructor asks of its surroundings: \<^verbatim>\<open>Path.absolute\<close>, and \<^verbatim>\<open>Path.read_text\<close>,
  which returns the content of a file or raises (\<open>None\<close>).
\<close>

record env =
  absolute :: "string \<Rightarrow> string"
  read_text :: "string \<Rightarrow> string option"

text \<open>
  The attributes of a \<^verbatim>\<open>BuildPropReader\<close>; \<open>filename\<close> and \<open>content\<close> are the attributes
  \<^verbatim>\<open>_filename\<close> and \<^verbatim>\<open>_content\<close> of the source.
\<close>

record reader =
  filename :: string
  content :: string
  codename :: string
  manufacturer :: string
  platform :: string
  brand :: string
  model :: string
  arch :: string
  device_is_ab :: bool
  device_has_64bit_arch :: bool

text \<open>\<^verbatim>\<open>_error\<close> always raises.\<close>

definition error' :: "string \<Rightarrow> error + 'a" where
  "error' p = Inl (AssertionError (''Device '' @ p @ '' could not be found in build.prop''))"

definition get_prop :: "string \<Rightarrow> regex \<Rightarrow> string \<Rightarrow> error + string" where
  "get_prop cont re err =
     (case search re cont of
        Some m \<Rightarrow> Inr (snd m)
      | None \<Rightarrow> error' err)"

text \<open>\<^verbatim>\<open>str.startswith\<close>.\<close>

definition startswith :: "string \<Rightarrow> string \<Rightarrow> bool" where
  "startswith s p = (take (length p) s = p)"

definition parse_arch :: "string \<Rightarrow> string" where
  "parse_arch a =
     (if startswith a ''arm64'' then ''arm64''
      else if startswith a ''armeabi'' then ''arm''
      else if startswith a ''x86'' then ''x86''
      else if startswith a ''x86_64'' then ''x86_64''
      else if startswith a ''mips'' then ''mips''
      else ''unknown'')"

text \<open>
  \<^verbatim>\<open>str.lower\<close> on code points below 256: the capital letters of ASCII and of Latin-1
  (U+00C0 to U+00DE without the multiplication sign U+00D7) move up by 32, every other
  character stays.
\<close>

definition lower_char :: "char \<Rightarrow> char" where
  "lower_char c =
     (let n = (of_char c :: nat)
      in if (65 \<le> n \<and> n \<le> 90) \<or> (192 \<le> n \<and> n \<le> 222 \<and> n \<noteq> 215)
         then char_of (n + 32) else c)"

definition lower :: "string \<Rightarrow> string" where
  "lower s = map lower_char s"

text \<open>
  \<^verbatim>\<open>BuildPropReader.__init__\<close>. The properties are read in the order of the source and the
  first one that is missing raises; the A/B flag and the 64-bit flag never raise.
\<close>

definition init :: "env \<Rightarrow> string \<Rightarrow> error + reader" where
  "init e file =
     (let fn = absolute e file in
      case read_text e fn of
        None \<Rightarrow> Inl ReadError
      | Some cont \<Rightarrow>
     (case get_prop cont DEVICE_CODENAME_RE ''codename'' of Inl x \<Rightarrow> Inl x | Inr v_codename \<Rightarrow>
     (case get_prop cont DEVICE_MANUFACTURER_RE ''manufacturer'' of Inl x \<Rightarrow> Inl x | Inr v_manufacturer \<Rightarrow>
     (case get_prop cont DEVICE_PLATFORM_RE ''platform'' of Inl x \<Rightarrow> Inl x | Inr v_platform \<Rightarrow>
     (case get_prop cont DEVICE_BRAND_RE ''brand'' of Inl x \<Rightarrow> Inl x | Inr v_brand \<Rightarrow>
     (case get_prop cont DEVICE_MODEL_RE ''model'' of Inl x \<Rightarrow> Inl x | Inr v_model \<Rightarrow>
     (case get_prop cont DEVICE_ARCH_RE ''arch'' of Inl x \<Rightarrow> Inl x | Inr v_arch \<Rightarrow>
        (let a = parse_arch v_arch in
         Inr \<lparr> filename = fn, content = cont,
               codename = v_codename,
               manufacturer = lower v_manufacturer,
               platform = v_platform,
               brand = v_brand,
               model = v_model,
               arch = a,
               device_is_ab = (search DEVICE_IS_AB_RE cont \<noteq> None),
               device_has_64bit_arch = (a \<in> set [''arm64'', ''x86_64'']) \<rparr>))))))))"

subsection \<open>The required properties\<close>

text \<open>
  The six properties \<^verbatim>\<open>__init__\<close> reads with \<^verbatim>\<open>get_prop\<close>, in its order, each with its
  pattern, the name it passes to \<^verbatim>\<open>_error\<close>, and the attribute it fills before any
  post-processing (\<^verbatim>\<open>lower\<close>, \<^verbatim>\<open>parse_arch\<close>).
\<close>

datatype property = Codename | Manufacturer | Platform | Brand | Model | Arch

definition required :: "property list" where
  "required = [Codename, Manufacturer, Platform, Brand, Model, Arch]"

fun regex_of :: "property \<Rightarrow> regex" where
  "regex_of Codename = DEVICE_CODENAME_RE"
| "regex_of Manufacturer = DEVICE_MANUFACTURER_RE"
| "regex_of Platform = DEVICE_PLATFORM_RE"
| "regex_of Brand = DEVICE_BRAND_RE"
| "regex_of Model = DEVICE_MODEL_RE"
| "regex_of Arch = DEVICE_ARCH_RE"

fun name_of :: "property \<Rightarrow> string" where
  "name_of Codename = ''codename''"
| "name_of Manufacturer = ''manufacturer''"
| "name_of Platform = ''platform''"
| "name_of Brand = ''brand''"
| "name_of Model = ''model''"
| "name_of Arch = ''arch''"

text \<open>What \<^verbatim>\<open>__init__\<close> does with the captured value of a property.\<close>

fun post :: "property \<Rightarrow> string \<Rightarrow> string" where
  "post Manufacturer v = lower v"
| "post Arch v = parse_arch v"
| "post p v = v"

fun field :: "property \<Rightarrow> reader \<Rightarrow> string" where
  "field Codename r = codename r"
| "field Manufacturer r = manufacturer r"
| "field Platform r = platform r"
| "field Brand r = brand r"
| "field Model r = model r"
| "field Arch r = arch r"

subsection \<open>Lines\<close>

text \<open>The content made of the given lines: \<^verbatim>\<open>"\n".join(ls)\<close>.\<close>

fun join_lines :: "string list \<Rightarrow> string" where
  "join_lines [] = []"
| "join_lines [l] = l"
| "join_lines (l # ls) = l @ newline # join_lines ls"


text \<open>\<^verbatim>\<open>m in s\<close> for two strings: \<open>m\<close> occurs in \<open>s\<close> at some position.\<close>

fun occurs_in :: "string \<Rightarrow> string \<Rightarrow> bool" where
  "occurs_in m [] = (m = [])"
| "occurs_in m (c # cs) = (startswith (c # cs) m \<or> occurs_in m cs)"

text \<open>
  The key pattern \<open>k\<close>, its dots read as \<^verbatim>\<open>re\<close> reads them, matches at some position of
  \<open>s\<close>.
\<close>

fun matches_in :: "string \<Rightarrow> string \<Rightarrow> bool" where
  "matches_in k [] = (match_key k [] \<noteq> None)"
| "matches_in k (c # cs) = (match_key k (c # cs) \<noteq> None \<or> matches_in k cs)"

subsection \<open>Sample files\<close>

text \<open>
  Files for the concrete instances below. A file is given by its lines; it is read from
  \<^verbatim>\<open>/work/build.prop\<close>, and a relative path is resolved against \<^verbatim>\<open>/work\<close>.
\<close>

definition sample_env :: "string list \<Rightarrow> env" where
  "sample_env ls =
     \<lparr> absolute = (\<lambda>p. ''/work/'' @ p),
       read_text = (\<lambda>p. if p = ''/work/build.prop'' then Some (join_lines ls) else None) \<rparr>"

definition other_env :: "string list \<Rightarrow> env" where
  "other_env ls =
     \<lparr> absolute = (\<lambda>p. p),
       read_text = (\<lambda>p. if p = ''/tmp/system.prop'' then Some (join_lines ls) else None) \<rparr>"

definition common_lines :: "string list" where
  "common_lines =
     [''# begin build properties'',
      ''ro.product.device=walleye'',
      ''ro.product.manufacturer=Google'',
      ''ro.board.platform=msm8998'',
      ''ro.product.brand=google'',
      ''ro.product.model=Pixel 2'']"

definition arm64_lines :: "string list" where
  "arm64_lines = common_lines @ [''ro.product.cpu.abi=arm64-v8a'', ''ro.build.ab_update=true'', []]"

definition x86_64_lines :: "string list" where
  "x86_64_lines = common_lines @ [''ro.product.cpu.abilist=x86_64,x86'', []]"

definition mips_lines :: "string list" where
  "mips_lines = common_lines @ [''ro.product.cpu.abi=mips'', []]"

definition no_platform_lines :: "string list" where
  "no_platform_lines =
     [''ro.product.device=walleye'',
      ''ro.product.manufacturer=Google'',
      ''ro.product.brand=google'',
      ''ro.product.model=Pixel 2'',
      ''ro.product.cpu.abi=arm64-v8a'',
      []]"

definition dashed_lines :: "string list" where
  "dashed_lines = common_lines @ [''ro.product.cpu.abi=arm64-v8a'', ''ro-build-ab_update=true'', []]"

definition midline_lines :: "string list" where
  "midline_lines =
     [''persist.ro.product.device=walleye'',
      ''ro.product.manufacturer=Google'',
      ''ro.board.platform=msm8998'',
      ''ro.product.brand=google'',
      ''ro.product.model=Pixel 2'',
      ''ro.product.cpu.abi=arm64-v8a'']"

definition two_keys_lines :: "string list" where
  "two_keys_lines = [''ro.system.device=first'', ''ro.product.device=second'']"

definition empty_lines :: "string list" where
  "empty_lines =
     [''# empty values'',
      ''ro.product.device='',
      ''ro.product.cpu.abi='',
      ''ro.product.manufacturer='',
      ''ro.board.platform='',
      ''ro.product.brand='',
      ''ro.product.model='']"

definition wildcard_lines :: "string list" where
  "wildcard_lines =
     [''ro-system-device=bogus'',
      ''ro.product.device=a'',
      ''ro.system.device=b'',
      ''ro.product.manufacturer=Google'',
      ''ro.board.platform=msm8998'',
      ''ro.product.brand=google'',
      ''ro.product.model=Pixel 2'',
      ''ro.product.cpu.abi=arm64-v8a'']"

definition shadowed_lines :: "string list" where
  "shadowed_lines =
     [''ro_product_device=real'',
      ''ro.product.device='',
      ''ro.product.manufacturer=Google'',
      ''ro.board.platform=msm8998'',
      ''ro.product.brand=google'',
      ''ro.product.model=Pixel 2'',
      ''ro.product.cpu.abi=arm64-v8a'']"

section \<open>The matcher\<close>

lemma star_dollar_at: "at_eol (drop n r) \<Longrightarrow> star_dollar n r = Some (take n r)"
  by (cases n) simp_all

lemma at_eol_dropWhile: "at_eol (dropWhile (\<lambda>c. c \<noteq> newline) r)"
  by (induction r) simp_all

lemma group_eol_eq: "group_eol r = Some (takeWhile (\<lambda>c. c \<noteq> newline) r)"
proof -
  let ?n = "length (takeWhile (\<lambda>c. c \<noteq> newline) r)"
  have "drop ?n r = dropWhile (\<lambda>c. c \<noteq> newline) r"
    by (simp add: dropWhile_eq_drop)
  then have "at_eol (drop ?n r)"
    by (simp add: at_eol_dropWhile)
  then have "star_dollar ?n r = Some (take ?n r)"
    by (rule star_dollar_at)
  moreover have "take ?n r = takeWhile (\<lambda>c. c \<noteq> newline) r"
    by (rule takeWhile_eq_take [symmetric])
  ultimately show ?thesis
    unfolding group_eol_def by simp
qed

lemma match_here_None_iff: "match_here re s = None \<longleftrightarrow> (\<forall>k\<in>set re. match_key k s = None)"
  by (induction re) (auto simp: group_eol_eq split: option.splits)

lemma match_here_SomeD:
  "match_here re s = Some g \<Longrightarrow>
     \<exists>k\<in>set re. \<exists>r. match_key k s = Some r \<and> g = takeWhile (\<lambda>c. c \<noteq> newline) r"
  by (induction re) (auto simp: group_eol_eq split: option.splits)

lemma match_key_SomeD:
  "match_key k s = Some r \<Longrightarrow> \<exists>m. s = m @ r \<and> list_all2 atom_matches k m"
proof (induction k s rule: match_key.induct)
  case (3 p ps c cs)
  then obtain m where "cs = m @ r" "list_all2 atom_matches ps m" "atom_matches p c"
    by (auto split: if_splits)
  then have "c # cs = (c # m) @ r \<and> list_all2 atom_matches (p # ps) (c # m)" by simp
  then show ?case by blast
qed simp_all

lemma match_key_all2: "list_all2 atom_matches k m \<Longrightarrow> match_key k (m @ r) = Some r"
  by (induction k m rule: list_all2_induct) simp_all

lemma all2_literal: "newline \<notin> set k \<Longrightarrow> list_all2 atom_matches k k"
  by (induction k) (auto simp: atom_matches_def)

lemma match_key_literal: "newline \<notin> set k \<Longrightarrow> match_key k (k @ r) = Some r"
  by (simp add: all2_literal match_key_all2)

lemma search_from_None_iff:
  "search_from re i s = None \<longleftrightarrow> (\<forall>n\<le>length s. match_here re (drop n s) = None)"
proof (induction s arbitrary: i)
  case Nil
  then show ?case by simp
next
  case (Cons c cs)
  show ?case
  proof (cases "match_here re (c # cs)")
    case None
    have "(\<forall>n\<le>length (c # cs). match_here re (drop n (c # cs)) = None) \<longleftrightarrow>
          (\<forall>n\<le>length cs. match_here re (drop n cs) = None)"
    proof
      assume a: "\<forall>n\<le>length (c # cs). match_here re (drop n (c # cs)) = None"
      show "\<forall>n\<le>length cs. match_here re (drop n cs) = None"
      proof (intro allI impI)
        fix n assume "n \<le> length cs"
        with a have "match_here re (drop (Suc n) (c # cs)) = None" by auto
        then show "match_here re (drop n cs) = None" by simp
      qed
    next
      assume a: "\<forall>n\<le>length cs. match_here re (drop n cs) = None"
      show "\<forall>n\<le>length (c # cs). match_here re (drop n (c # cs)) = None"
      proof (intro allI impI)
        fix n assume n: "n \<le> length (c # cs)"
        show "match_here re (drop n (c # cs)) = None"
          using None a n by (cases n) auto
      qed
    qed
    with None Cons.IH [of "Suc i"] show ?thesis by simp
  next
    case (Some g)
    then have "\<not> (\<forall>n\<le>length (c # cs). match_here re (drop n (c # cs)) = None)"
      by (auto intro: exI [of _ 0])
    with Some show ?thesis by simp
  qed
qed

lemma search_from_Some_iff:
  "search_from re i s = Some (p, g) \<longleftrightarrow>
     (\<exists>n\<le>length s. p = i + n \<and> match_here re (drop n s) = Some g \<and>
        (\<forall>m<n. match_here re (drop m s) = None))"
proof (induction s arbitrary: i)
  case Nil
  then show ?case by auto
next
  case (Cons c cs)
  show ?case
  proof (cases "match_here re (c # cs)")
    case (Some g')
    have "(\<exists>n\<le>length (c # cs). p = i + n \<and> match_here re (drop n (c # cs)) = Some g \<and>
        (\<forall>m<n. match_here re (drop m (c # cs)) = None)) \<longleftrightarrow> (p = i \<and> g = g')"
    proof
      assume "\<exists>n\<le>length (c # cs). p = i + n \<and> match_here re (drop n (c # cs)) = Some g \<and>
        (\<forall>m<n. match_here re (drop m (c # cs)) = None)"
      then obtain n where n: "p = i + n" "match_here re (drop n (c # cs)) = Some g"
        "\<forall>m<n. match_here re (drop m (c # cs)) = None" by blast
      have "n = 0"
      proof (rule ccontr)
        assume "n \<noteq> 0"
        then have "match_here re (drop 0 (c # cs)) = None" using n(3) by blast
        with Some show False by simp
      qed
      with n Some show "p = i \<and> g = g'" by simp
    next
      assume "p = i \<and> g = g'"
      with Some show "\<exists>n\<le>length (c # cs). p = i + n \<and> match_here re (drop n (c # cs)) = Some g \<and>
        (\<forall>m<n. match_here re (drop m (c # cs)) = None)"
        by (intro exI [of _ 0]) simp
    qed
    with Some show ?thesis by auto
  next
    case None
    have "(\<exists>n\<le>length (c # cs). p = i + n \<and> match_here re (drop n (c # cs)) = Some g \<and>
        (\<forall>m<n. match_here re (drop m (c # cs)) = None)) \<longleftrightarrow>
        (\<exists>n\<le>length cs. p = Suc i + n \<and> match_here re (drop n cs) = Some g \<and>
        (\<forall>m<n. match_here re (drop m cs) = None))" (is "?L \<longleftrightarrow> ?R")
    proof
      assume ?L
      then obtain n where n: "n \<le> length (c # cs)" "p = i + n"
        "match_here re (drop n (c # cs)) = Some g"
        "\<forall>m<n. match_here re (drop m (c # cs)) = None" by blast
      from n(3) None obtain n' where n': "n = Suc n'" by (cases n) auto
      have "\<forall>m<n'. match_here re (drop m cs) = None"
      proof (intro allI impI)
        fix m assume "m < n'"
        then have "Suc m < n" using n' by simp
        with n(4) have "match_here re (drop (Suc m) (c # cs)) = None" by blast
        then show "match_here re (drop m cs) = None" by simp
      qed
      with n n' show ?R by (intro exI [of _ n']) simp
    next
      assume ?R
      then obtain n where n: "n \<le> length cs" "p = Suc i + n"
        "match_here re (drop n cs) = Some g"
        "\<forall>m<n. match_here re (drop m cs) = None" by blast
      have "\<forall>m<Suc n. match_here re (drop m (c # cs)) = None"
      proof (intro allI impI)
        fix m assume m: "m < Suc n"
        show "match_here re (drop m (c # cs)) = None"
          using None n(4) m by (cases m) auto
      qed
      with n show ?L by (intro exI [of _ "Suc n"]) simp
    qed
    with None Cons.IH [of "Suc i"] show ?thesis by simp
  qed
qed

section \<open>The constructor\<close>

lemma get_prop_Some: "search re c = Some m \<Longrightarrow> get_prop c re n = Inr (snd m)"
  by (simp add: get_prop_def)

lemma init_found:
  assumes "read_text e (absolute e file) = Some c"
    and "search DEVICE_CODENAME_RE c = Some m1"
    and "search DEVICE_MANUFACTURER_RE c = Some m2"
    and "search DEVICE_PLATFORM_RE c = Some m3"
    and "search DEVICE_BRAND_RE c = Some m4"
    and "search DEVICE_MODEL_RE c = Some m5"
    and "search DEVICE_ARCH_RE c = Some m6"
  shows "init e file =
     Inr \<lparr> filename = absolute e file, content = c,
           codename = snd m1, manufacturer = lower (snd m2), platform = snd m3,
           brand = snd m4, model = snd m5, arch = parse_arch (snd m6),
           device_is_ab = (search DEVICE_IS_AB_RE c \<noteq> None),
           device_has_64bit_arch = (parse_arch (snd m6) \<in> {''arm64'', ''x86_64''}) \<rparr>"
  using assms by (simp add: init_def get_prop_Some Let_def)

lemma init_InrD:
  assumes rd: "read_text e (absolute e file) = Some c"
    and ok: "init e file = Inr r"
  shows "\<exists>m1 m2 m3 m4 m5 m6.
      search DEVICE_CODENAME_RE c = Some m1 \<and>
      search DEVICE_MANUFACTURER_RE c = Some m2 \<and>
      search DEVICE_PLATFORM_RE c = Some m3 \<and>
      search DEVICE_BRAND_RE c = Some m4 \<and>
      search DEVICE_MODEL_RE c = Some m5 \<and>
      search DEVICE_ARCH_RE c = Some m6"
proof -
  have 1: "search DEVICE_CODENAME_RE c \<noteq> None"
    using rd ok by (auto simp: init_def get_prop_def error'_def split: option.splits)
  have 2: "search DEVICE_MANUFACTURER_RE c \<noteq> None"
    using rd ok 1 by (auto simp: init_def get_prop_def error'_def split: option.splits)
  have 3: "search DEVICE_PLATFORM_RE c \<noteq> None"
    using rd ok 1 2 by (auto simp: init_def get_prop_def error'_def split: option.splits)
  have 4: "search DEVICE_BRAND_RE c \<noteq> None"
    using rd ok 1 2 3 by (auto simp: init_def get_prop_def error'_def split: option.splits)
  have 5: "search DEVICE_MODEL_RE c \<noteq> None"
    using rd ok 1 2 3 4 by (auto simp: init_def get_prop_def error'_def split: option.splits)
  have 6: "search DEVICE_ARCH_RE c \<noteq> None"
    using rd ok 1 2 3 4 5 by (auto simp: init_def get_prop_def error'_def split: option.splits)
  from 1 2 3 4 5 6 show ?thesis by auto
qed

lemma init_first_missing:
  assumes rd: "read_text e (absolute e file) = Some c"
    and f: "find (\<lambda>p. search (regex_of p) c = None) required = Some p"
  shows "init e file = error' (name_of p)"
  using rd f
  by (auto simp: init_def required_def get_prop_def error'_def split: if_splits option.splits)

lemma init_none_missing:
  assumes rd: "read_text e (absolute e file) = Some c"
    and f: "find (\<lambda>p. search (regex_of p) c = None) required = None"
  shows "\<exists>r. init e file = Inr r"
  using rd f
  by (auto simp: init_def required_def get_prop_def Let_def split: if_splits option.splits)

section \<open>The architecture\<close>

lemma startswith_append: "startswith a (p @ q) \<Longrightarrow> startswith a p"
proof -
  assume "startswith a (p @ q)"
  then have "take (length p + length q) a = p @ q"
    by (simp add: startswith_def)
  then have "take (length p) (take (length p + length q) a) = take (length p) (p @ q)"
    by simp
  then show "startswith a p"
    by (simp add: startswith_def min_def)
qed

lemma x86_64_unreachable: "startswith a ''x86_64'' \<Longrightarrow> startswith a ''x86''"
  using startswith_append [of a "''x86''" "''_64''"] by simp

lemma parse_arch_range:
  "parse_arch a \<in> {''arm64'', ''arm'', ''x86'', ''mips'', ''unknown''}"
  using x86_64_unreachable [of a] by (auto simp: parse_arch_def)

text \<open>
  Claim C1: \<^verbatim>\<open>parse_arch\<close> classifies its argument by prefix, in the order arm64, armeabi,
  x86, mips: it maps \<^verbatim>\<open>arm64-v8a\<close> to \<^verbatim>\<open>arm64\<close>, \<^verbatim>\<open>armeabi-v7a\<close> to \<^verbatim>\<open>arm\<close>, both \<^verbatim>\<open>x86\<close> and
  \<^verbatim>\<open>x86_64\<close> to \<^verbatim>\<open>x86\<close>, \<^verbatim>\<open>mips\<close> to \<^verbatim>\<open>mips\<close> and \<^verbatim>\<open>riscv64\<close> to \<^verbatim>\<open>unknown\<close>, and it returns
  \<^verbatim>\<open>x86_64\<close> for no argument at all.
\<close>

theorem parse_arch_prefix_order:
  "parse_arch ''arm64-v8a'' = ''arm64'' \<and>
   parse_arch ''armeabi-v7a'' = ''arm'' \<and>
   parse_arch ''x86'' = ''x86'' \<and>
   parse_arch ''x86_64'' = ''x86'' \<and>
   parse_arch ''mips'' = ''mips'' \<and>
   parse_arch ''riscv64'' = ''unknown'' \<and>
   (\<forall>a. parse_arch a \<noteq> ''x86_64'')"
proof -
  have "\<And>a. parse_arch a \<noteq> ''x86_64''"
  proof -
    fix a
    have "parse_arch a \<in> {''arm64'', ''arm'', ''x86'', ''mips'', ''unknown''}"
      by (rule parse_arch_range)
    then show "parse_arch a \<noteq> ''x86_64''" by auto
  qed
  then show ?thesis
    by (simp add: parse_arch_def startswith_def)
qed

section \<open>The sample files\<close>

lemma read_sample:
  "read_text (sample_env ls) (absolute (sample_env ls) ''build.prop'') = Some (join_lines ls)"
  by (simp add: sample_env_def)

lemma read_other:
  "read_text (other_env ls) (absolute (other_env ls) ''/tmp/system.prop'') = Some (join_lines ls)"
  by (simp add: other_env_def)

lemma init_arch:
  assumes rd: "read_text e (absolute e file) = Some c"
    and ok: "init e file = Inr r"
  shows "\<exists>m. search DEVICE_ARCH_RE c = Some m \<and> arch r = parse_arch (snd m) \<and>
     device_has_64bit_arch r = (arch r \<in> {''arm64'', ''x86_64''})"
proof -
  from init_InrD [OF rd ok] obtain m1 m2 m3 m4 m5 m6 where m:
      "search DEVICE_CODENAME_RE c = Some m1"
      "search DEVICE_MANUFACTURER_RE c = Some m2"
      "search DEVICE_PLATFORM_RE c = Some m3"
      "search DEVICE_BRAND_RE c = Some m4"
      "search DEVICE_MODEL_RE c = Some m5"
      "search DEVICE_ARCH_RE c = Some m6"
    by blast
  from init_found [OF rd m] ok show ?thesis
    using m(6) by auto
qed

lemma init_arm64:
  "init (sample_env arm64_lines) ''build.prop'' =
     Inr \<lparr> filename = ''/work/build.prop'', content = join_lines arm64_lines,
           codename = ''walleye'', manufacturer = ''google'', platform = ''msm8998'',
           brand = ''google'', model = ''Pixel 2'', arch = ''arm64'',
           device_is_ab = True, device_has_64bit_arch = True \<rparr>"
  by code_simp

lemma init_x86_64:
  "init (sample_env x86_64_lines) ''build.prop'' =
     Inr \<lparr> filename = ''/work/build.prop'', content = join_lines x86_64_lines,
           codename = ''walleye'', manufacturer = ''google'', platform = ''msm8998'',
           brand = ''google'', model = ''Pixel 2'', arch = ''x86'',
           device_is_ab = False, device_has_64bit_arch = False \<rparr>"
  by code_simp

lemma init_other_arm64:
  "init (other_env arm64_lines) ''/tmp/system.prop'' =
     Inr \<lparr> filename = ''/tmp/system.prop'', content = join_lines arm64_lines,
           codename = ''walleye'', manufacturer = ''google'', platform = ''msm8998'',
           brand = ''google'', model = ''Pixel 2'', arch = ''arm64'',
           device_is_ab = True, device_has_64bit_arch = True \<rparr>"
  by code_simp

section \<open>The closed set of architectures\<close>

text \<open>
  Claim C2, as stated: whenever construction succeeds, \<open>arch\<close> is one of \<^verbatim>\<open>arm64\<close>, \<^verbatim>\<open>arm\<close>,
  \<^verbatim>\<open>x86\<close>, \<^verbatim>\<open>x86_64\<close>, \<^verbatim>\<open>unknown\<close>, and never \<^verbatim>\<open>mips\<close>. It fails on a file whose ABI is
  \<^verbatim>\<open>mips\<close>: construction succeeds and \<open>arch\<close> is \<^verbatim>\<open>mips\<close>.
\<close>

theorem arch_mips_counterexample:
  "map_sum id arch (init (sample_env mips_lines) ''build.prop'') = Inr ''mips'' \<and>
   ''mips'' \<notin> {''arm64'', ''arm'', ''x86'', ''x86_64'', ''unknown''}"
  by code_simp

text \<open>
  Claim C2, amended: whenever construction succeeds, \<open>arch\<close> is one of the six strings
  \<^verbatim>\<open>arm64\<close>, \<^verbatim>\<open>arm\<close>, \<^verbatim>\<open>x86\<close>, \<^verbatim>\<open>x86_64\<close>, \<^verbatim>\<open>mips\<close>, \<^verbatim>\<open>unknown\<close>.
\<close>

theorem arch_closed_set:
  assumes "read_text e (absolute e file) = Some c"
    and "init e file = Inr r"
  shows "arch r \<in> {''arm64'', ''arm'', ''x86'', ''x86_64'', ''mips'', ''unknown''}"
proof -
  from init_arch [OF assms] obtain m :: "nat \<times> string"
    where "arch r = parse_arch (snd m)" by blast
  with parse_arch_range [of "snd m"] show ?thesis by auto
qed

theorem arch_closed_set_witness:
  "init (sample_env arm64_lines) ''build.prop'' =
     Inr \<lparr> filename = ''/work/build.prop'', content = join_lines arm64_lines,
           codename = ''walleye'', manufacturer = ''google'', platform = ''msm8998'',
           brand = ''google'', model = ''Pixel 2'', arch = ''arm64'',
           device_is_ab = True, device_has_64bit_arch = True \<rparr> \<and>
   ''arm64'' \<in> {''arm64'', ''arm'', ''x86'', ''x86_64'', ''mips'', ''unknown''}"
  using arch_closed_set [OF read_sample init_arm64] init_arm64 by simp

section \<open>The 64-bit flag\<close>

text \<open>
  Claim C5: whenever construction succeeds, \<open>device_has_64bit_arch\<close> holds exactly when
  \<open>arch\<close> is \<^verbatim>\<open>arm64\<close>; \<open>arch\<close> is never \<^verbatim>\<open>x86_64\<close>, so the flag is false for every other
  value construction produces, \<^verbatim>\<open>x86\<close> included.
\<close>

theorem has_64bit_iff_arm64:
  assumes "read_text e (absolute e file) = Some c"
    and "init e file = Inr r"
  shows "(device_has_64bit_arch r \<longleftrightarrow> arch r = ''arm64'') \<and> arch r \<noteq> ''x86_64''"
proof -
  from init_arch [OF assms] obtain m :: "nat \<times> string"
    where m: "arch r = parse_arch (snd m)"
    "device_has_64bit_arch r = (arch r \<in> {''arm64'', ''x86_64''})" by blast
  have "arch r \<noteq> ''x86_64''"
    using parse_arch_range [of "snd m"] m(1) by auto
  with m(2) show ?thesis by auto
qed

theorem has_64bit_iff_arm64_witness:
  "init (sample_env x86_64_lines) ''build.prop'' =
     Inr \<lparr> filename = ''/work/build.prop'', content = join_lines x86_64_lines,
           codename = ''walleye'', manufacturer = ''google'', platform = ''msm8998'',
           brand = ''google'', model = ''Pixel 2'', arch = ''x86'',
           device_is_ab = False, device_has_64bit_arch = False \<rparr> \<and>
   ''x86'' \<noteq> ''arm64'' \<and> ''x86'' \<noteq> ''x86_64''"
  using has_64bit_iff_arm64 [OF read_sample init_x86_64] init_x86_64 by simp

section \<open>Determinism\<close>

text \<open>
  Claim C9: two constructions that read the same content, from whatever paths and in
  whatever surroundings, either both fail with the same error or both succeed with
  records that agree on \<open>codename\<close>, \<open>manufacturer\<close>, \<open>platform\<close>, \<open>brand\<close>, \<open>model\<close>,
  \<open>arch\<close>, \<open>device_is_ab\<close> and \<open>device_has_64bit_arch\<close>.
\<close>

theorem init_deterministic:
  assumes r1: "read_text e1 (absolute e1 file1) = Some c"
    and r2: "read_text e2 (absolute e2 file2) = Some c"
  shows "(\<exists>x. init e1 file1 = Inl x \<and> init e2 file2 = Inl x) \<or>
    (\<exists>a b. init e1 file1 = Inr a \<and> init e2 file2 = Inr b \<and>
       codename a = codename b \<and> manufacturer a = manufacturer b \<and>
       platform a = platform b \<and> brand a = brand b \<and> model a = model b \<and>
       arch a = arch b \<and> device_is_ab a = device_is_ab b \<and>
       device_has_64bit_arch a = device_has_64bit_arch b)"
proof (cases "find (\<lambda>p. search (regex_of p) c = None) required")
  case (Some p)
  have "init e1 file1 = error' (name_of p)" "init e2 file2 = error' (name_of p)"
    using init_first_missing [OF r1 Some] init_first_missing [OF r2 Some] by simp_all
  then show ?thesis by (simp add: error'_def)
next
  case None
  from init_none_missing [OF r1 None] obtain a where a: "init e1 file1 = Inr a" by blast
  from init_InrD [OF r1 a] obtain m1 m2 m3 m4 m5 m6 where m:
      "search DEVICE_CODENAME_RE c = Some m1"
      "search DEVICE_MANUFACTURER_RE c = Some m2"
      "search DEVICE_PLATFORM_RE c = Some m3"
      "search DEVICE_BRAND_RE c = Some m4"
      "search DEVICE_MODEL_RE c = Some m5"
      "search DEVICE_ARCH_RE c = Some m6"
    by blast
  show ?thesis
    using init_found [OF r1 m] init_found [OF r2 m] by simp
qed

theorem init_deterministic_witness:
  "init (sample_env arm64_lines) ''build.prop'' =
     Inr \<lparr> filename = ''/work/build.prop'', content = join_lines arm64_lines,
           codename = ''walleye'', manufacturer = ''google'', platform = ''msm8998'',
           brand = ''google'', model = ''Pixel 2'', arch = ''arm64'',
           device_is_ab = True, device_has_64bit_arch = True \<rparr> \<and>
   init (other_env arm64_lines) ''/tmp/system.prop'' =
     Inr \<lparr> filename = ''/tmp/system.prop'', content = join_lines arm64_lines,
           codename = ''walleye'', manufacturer = ''google'', platform = ''msm8998'',
           brand = ''google'', model = ''Pixel 2'', arch = ''arm64'',
           device_is_ab = True, device_has_64bit_arch = True \<rparr>"
  using init_deterministic [OF read_sample read_other, of arm64_lines]
    init_arm64 init_other_arm64
  by simp

section \<open>The missing property\<close>

lemma init_InlD:
  assumes rd: "read_text e (absolute e file) = Some c"
    and bad: "init e file = Inl x"
  shows "\<exists>p. find (\<lambda>p. search (regex_of p) c = None) required = Some p \<and>
     x = AssertionError (''Device '' @ name_of p @ '' could not be found in build.prop'')"
proof (cases "find (\<lambda>p. search (regex_of p) c = None) required")
  case None
  from init_none_missing [OF rd None] bad show ?thesis by auto
next
  case (Some p)
  from init_first_missing [OF rd Some] bad show ?thesis
    using Some by (simp add: error'_def)
qed

lemma find_only_missing:
  assumes "p \<in> set required"
    and "search (regex_of p) c = None"
    and "\<forall>q\<in>set required. q \<noteq> p \<longrightarrow> search (regex_of q) c \<noteq> None"
  shows "find (\<lambda>p. search (regex_of p) c = None) required = Some p"
proof -
  have d: "distinct required"
    by (simp add: required_def)
  from assms(1) obtain i where i: "i < length required" "required ! i = p"
    by (auto simp: in_set_conv_nth)
  have "\<forall>j<i. \<not> search (regex_of (required ! j)) c = None"
  proof (intro allI impI)
    fix j assume j: "j < i"
    then have "required ! j \<noteq> p"
      using i d by (auto simp: nth_eq_iff_index_eq)
    moreover have "required ! j \<in> set required"
      using j i by simp
    ultimately show "\<not> search (regex_of (required ! j)) c = None"
      using assms(3) by blast
  qed
  with i assms(2) show ?thesis
    unfolding find_Some_iff by blast
qed

lemma inj_name_of: "inj name_of"
proof (rule injI)
  fix p q assume "name_of p = name_of q"
  then show "p = q" by (cases p; cases q) simp_all
qed

text \<open>
  Claim C3: on a content in which exactly one required property has no match of its
  pattern, construction raises the error whose message names that property (with several
  missing, the first one in the order of \<^verbatim>\<open>__init__\<close>); every error construction raises on a
  content names a property whose pattern has no match, and distinct properties have
  distinct names; with every required property matched, construction returns a complete
  record.
\<close>

theorem missing_property_error:
  assumes rd: "read_text e (absolute e file) = Some c"
  shows "(\<forall>p\<in>set required.
            search (regex_of p) c = None \<and>
            (\<forall>q\<in>set required. q \<noteq> p \<longrightarrow> search (regex_of q) c \<noteq> None) \<longrightarrow>
            init e file =
              Inl (AssertionError (''Device '' @ name_of p @ '' could not be found in build.prop''))) \<and>
         (\<forall>p. find (\<lambda>p. search (regex_of p) c = None) required = Some p \<longrightarrow>
            init e file =
              Inl (AssertionError (''Device '' @ name_of p @ '' could not be found in build.prop''))) \<and>
         (\<forall>x. init e file = Inl x \<longrightarrow>
            (\<exists>p\<in>set required. search (regex_of p) c = None \<and>
               x = AssertionError (''Device '' @ name_of p @ '' could not be found in build.prop''))) \<and>
         ((\<forall>p\<in>set required. search (regex_of p) c \<noteq> None) \<longrightarrow> (\<exists>r. init e file = Inr r)) \<and>
         inj name_of"
proof (intro conjI)
  show "\<forall>p\<in>set required.
            search (regex_of p) c = None \<and>
            (\<forall>q\<in>set required. q \<noteq> p \<longrightarrow> search (regex_of q) c \<noteq> None) \<longrightarrow>
            init e file =
              Inl (AssertionError (''Device '' @ name_of p @ '' could not be found in build.prop''))"
  proof (intro ballI impI)
    fix p assume p: "p \<in> set required"
      and h: "search (regex_of p) c = None \<and>
            (\<forall>q\<in>set required. q \<noteq> p \<longrightarrow> search (regex_of q) c \<noteq> None)"
    have "find (\<lambda>p. search (regex_of p) c = None) required = Some p"
      using find_only_missing [OF p] h by blast
    from init_first_missing [OF rd this]
    show "init e file =
              Inl (AssertionError (''Device '' @ name_of p @ '' could not be found in build.prop''))"
      by (simp add: error'_def)
  qed
next
  show "\<forall>p. find (\<lambda>p. search (regex_of p) c = None) required = Some p \<longrightarrow>
            init e file =
              Inl (AssertionError (''Device '' @ name_of p @ '' could not be found in build.prop''))"
    using init_first_missing [OF rd] by (simp add: error'_def)
next
  show "\<forall>x. init e file = Inl x \<longrightarrow>
            (\<exists>p\<in>set required. search (regex_of p) c = None \<and>
               x = AssertionError (''Device '' @ name_of p @ '' could not be found in build.prop''))"
  proof (intro allI impI)
    fix x assume "init e file = Inl x"
    from init_InlD [OF rd this] obtain p where
      p: "find (\<lambda>p. search (regex_of p) c = None) required = Some p"
        "x = AssertionError (''Device '' @ name_of p @ '' could not be found in build.prop'')"
      by blast
    from p(1) have "p \<in> set required \<and> search (regex_of p) c = None"
      by (auto simp: find_Some_iff)
    with p(2) show "\<exists>p\<in>set required. search (regex_of p) c = None \<and>
               x = AssertionError (''Device '' @ name_of p @ '' could not be found in build.prop'')"
      by blast
  qed
next
  show "(\<forall>p\<in>set required. search (regex_of p) c \<noteq> None) \<longrightarrow> (\<exists>r. init e file = Inr r)"
  proof
    assume "\<forall>p\<in>set required. search (regex_of p) c \<noteq> None"
    then have "find (\<lambda>p. search (regex_of p) c = None) required = None"
      by (simp add: find_None_iff)
    from init_none_missing [OF rd this] show "\<exists>r. init e file = Inr r" .
  qed
next
  show "inj name_of" by (rule inj_name_of)
qed

lemma no_platform_facts:
  "search (regex_of Platform) (join_lines no_platform_lines) = None"
  "\<forall>q\<in>set required. q \<noteq> Platform \<longrightarrow> search (regex_of q) (join_lines no_platform_lines) \<noteq> None"
  by code_simp+

theorem missing_property_error_witness:
  "init (sample_env no_platform_lines) ''build.prop'' =
     Inl (AssertionError ''Device platform could not be found in build.prop'')"
proof -
  have "Platform \<in> set required" by (simp add: required_def)
  with missing_property_error [OF read_sample, of no_platform_lines] no_platform_facts
  have "init (sample_env no_platform_lines) ''build.prop'' =
     Inl (AssertionError (''Device '' @ name_of Platform @ '' could not be found in build.prop''))"
    by blast
  then show ?thesis by simp
qed

section \<open>The A/B flag\<close>

lemma search_from_found_iff:
  "search_from re i s \<noteq> None \<longleftrightarrow> (\<exists>k\<in>set re. matches_in k s)"
proof (induction s arbitrary: i)
  case Nil
  show ?case
    using match_here_None_iff [of re "[]"] by (cases "match_here re []") auto
next
  case (Cons c cs)
  show ?case
  proof (cases "match_here re (c # cs)")
    case None
    then have "\<forall>k\<in>set re. match_key k (c # cs) = None"
      by (simp add: match_here_None_iff)
    with None Cons.IH [of "Suc i"] show ?thesis by simp
  next
    case (Some g)
    then have "\<exists>k\<in>set re. match_key k (c # cs) \<noteq> None"
      using match_here_None_iff [of re "c # cs"] by auto
    with Some show ?thesis by auto
  qed
qed

lemma search_found_iff:
  "search re s \<noteq> None \<longleftrightarrow> (\<exists>k\<in>set re. matches_in k s)"
  unfolding search_def by (rule search_from_found_iff)

lemma startswith_match_key:
  assumes "startswith s m" and "newline \<notin> set m"
  shows "match_key m s \<noteq> None"
proof -
  from assms(1) have "m @ drop (length m) s = s"
    unfolding startswith_def by (metis append_take_drop_id)
  then obtain r where r: "s = m @ r" by metis
  have "match_key m (m @ r) = Some r"
    using assms(2) by (rule match_key_literal)
  with r show ?thesis by simp
qed

lemma occurs_in_matches_in:
  "occurs_in m s \<Longrightarrow> newline \<notin> set m \<Longrightarrow> matches_in m s"
proof (induction s)
  case Nil
  then show ?case by simp
next
  case (Cons c cs)
  from Cons.prems(1) have "startswith (c # cs) m \<or> occurs_in m cs" by simp
  then show ?case
  proof
    assume "startswith (c # cs) m"
    from startswith_match_key [OF this Cons.prems(2)] show ?thesis by simp
  next
    assume "occurs_in m cs"
    from Cons.IH [OF this Cons.prems(2)] show ?thesis by simp
  qed
qed

lemma init_is_ab:
  assumes rd: "read_text e (absolute e file) = Some c"
    and ok: "init e file = Inr r"
  shows "device_is_ab r = (search DEVICE_IS_AB_RE c \<noteq> None)"
proof -
  from init_InrD [OF rd ok] obtain m1 m2 m3 m4 m5 m6 where m:
      "search DEVICE_CODENAME_RE c = Some m1"
      "search DEVICE_MANUFACTURER_RE c = Some m2"
      "search DEVICE_PLATFORM_RE c = Some m3"
      "search DEVICE_BRAND_RE c = Some m4"
      "search DEVICE_MODEL_RE c = Some m5"
      "search DEVICE_ARCH_RE c = Some m6"
    by blast
  from init_found [OF rd m] ok show ?thesis by auto
qed

text \<open>
  Claim C4, as stated: \<open>device_is_ab\<close> is true when the literal marker
  \<^verbatim>\<open>ro.build.ab_update=true\<close> occurs in the content and false when it occurs nowhere. It
  fails on a file whose only such line is \<^verbatim>\<open>ro-build-ab_update=true\<close>: the marker occurs
  nowhere, and the flag is true.
\<close>

theorem is_ab_literal_counterexample:
  "map_sum id device_is_ab (init (sample_env dashed_lines) ''build.prop'') = Inr True \<and>
   \<not> occurs_in ''ro.build.ab_update=true'' (join_lines dashed_lines)"
  by code_simp

text \<open>
  Claim C4, amended: \<open>device_is_ab\<close> is true when the pattern \<^verbatim>\<open>ro.build.ab_update=true\<close>,
  each of its two dots standing for any one character but a newline, matches at some
  position of the content, and false when it matches nowhere; it matches wherever the
  literal marker occurs; and construction succeeds whenever the six required properties
  are found, with or without the marker.
\<close>

theorem is_ab_pattern:
  assumes rd: "read_text e (absolute e file) = Some c"
  shows "(\<forall>r. init e file = Inr r \<longrightarrow>
            device_is_ab r = matches_in ''ro.build.ab_update=true'' c) \<and>
         (occurs_in ''ro.build.ab_update=true'' c \<longrightarrow>
            matches_in ''ro.build.ab_update=true'' c) \<and>
         ((\<forall>p\<in>set required. search (regex_of p) c \<noteq> None) \<longrightarrow> (\<exists>r. init e file = Inr r))"
proof (intro conjI)
  show "\<forall>r. init e file = Inr r \<longrightarrow> device_is_ab r = matches_in ''ro.build.ab_update=true'' c"
    using init_is_ab [OF rd] search_found_iff [of DEVICE_IS_AB_RE c]
    by (simp add: DEVICE_IS_AB_RE_def)
next
  have "newline \<notin> set ''ro.build.ab_update=true''"
    by (simp add: newline_def)
  then show "occurs_in ''ro.build.ab_update=true'' c \<longrightarrow>
            matches_in ''ro.build.ab_update=true'' c"
    using occurs_in_matches_in by blast
next
  show "(\<forall>p\<in>set required. search (regex_of p) c \<noteq> None) \<longrightarrow> (\<exists>r. init e file = Inr r)"
  proof
    assume "\<forall>p\<in>set required. search (regex_of p) c \<noteq> None"
    then have "find (\<lambda>p. search (regex_of p) c = None) required = None"
      by (simp add: find_None_iff)
    from init_none_missing [OF rd this] show "\<exists>r. init e file = Inr r" .
  qed
qed

lemma arm64_facts:
  "occurs_in ''ro.build.ab_update=true'' (join_lines arm64_lines)"
  "\<not> matches_in ''ro.build.ab_update=true'' (join_lines x86_64_lines)"
  by code_simp+

theorem is_ab_pattern_witness:
  "map_sum id device_is_ab (init (sample_env arm64_lines) ''build.prop'') = Inr True \<and>
   matches_in ''ro.build.ab_update=true'' (join_lines arm64_lines) \<and>
   map_sum id device_is_ab (init (sample_env x86_64_lines) ''build.prop'') = Inr False"
  using is_ab_pattern [OF read_sample, of arm64_lines]
    is_ab_pattern [OF read_sample, of x86_64_lines]
    init_arm64 init_x86_64 arm64_facts
  by simp

section \<open>Lines\<close>

lemma takeWhile_newline_append:
  "takeWhile (\<lambda>c. c \<noteq> newline) (r @ newline # t) = takeWhile (\<lambda>c. c \<noteq> newline) r"
  by (induction r) simp_all

lemma takeWhile_line:
  "newline \<notin> set v \<Longrightarrow> at_eol rest \<Longrightarrow> takeWhile (\<lambda>c. c \<noteq> newline) (v @ rest) = v"
  by (cases rest) (auto simp: takeWhile_newline_append)

lemma match_key_newline:
  "newline \<notin> set k \<Longrightarrow>
     match_key k (s @ newline # t) = map_option (\<lambda>r. r @ newline # t) (match_key k s)"
proof (induction k s rule: match_key.induct)
  case (1 s)
  then show ?case by simp
next
  case (2 p ps)
  then show ?case by (auto simp: atom_matches_def)
next
  case (3 p ps c cs)
  then show ?case by simp
qed

lemma match_here_newline:
  "\<forall>k\<in>set re. newline \<notin> set k \<Longrightarrow> match_here re (s @ newline # t) = match_here re s"
proof (induction re)
  case Nil
  then show ?case by simp
next
  case (Cons k ks)
  then have k: "newline \<notin> set k" and ks: "\<forall>k\<in>set ks. newline \<notin> set k" by simp_all
  show ?case
    by (cases "match_key k s")
       (simp_all add: match_key_newline [OF k] Cons.IH [OF ks] group_eol_eq takeWhile_newline_append)
qed

lemma search_from_newline:
  assumes re: "\<forall>k\<in>set re. newline \<notin> set k"
  shows "search_from re i (s @ newline # t) =
     (case search_from re i s of
        Some m \<Rightarrow> Some m
      | None \<Rightarrow> search_from re (Suc (i + length s)) t)"
proof (induction s arbitrary: i)
  case Nil
  have "match_here re (newline # t) = match_here re []"
    using match_here_newline [OF re, of "[]" t] by simp
  then show ?case by (cases "match_here re []") simp_all
next
  case (Cons c cs)
  have "match_here re (c # cs @ newline # t) = match_here re (c # cs)"
    using match_here_newline [OF re, of "c # cs" t] by simp
  then show ?case
    using Cons.IH [of "Suc i"]
    by (cases "match_here re (c # cs)") (auto split: option.splits)
qed

lemma search_from_shift:
  "map_option snd (search_from re i s) = map_option snd (search_from re j s)"
proof (induction s arbitrary: i j)
  case Nil
  then show ?case by (cases "match_here re []") simp_all
next
  case (Cons c cs)
  then show ?case
    using Cons.IH [of "Suc i" "Suc j"] by (cases "match_here re (c # cs)") simp_all
qed

lemma search_from_join_lines:
  assumes re: "\<forall>k\<in>set re. newline \<notin> set k"
  shows "ls \<noteq> [] \<Longrightarrow>
     map_option snd (search_from re i (join_lines ls)) =
       (case find (\<lambda>l. search re l \<noteq> None) ls of
          None \<Rightarrow> None
        | Some l \<Rightarrow> map_option snd (search re l))"
proof (induction ls arbitrary: i rule: join_lines.induct)
  case 1
  then show ?case by simp
next
  case (2 l)
  show ?case
    using search_from_shift [of re i l 0]
    by (cases "search_from re 0 l") (auto simp: search_def)
next
  case (3 l l' ls)
  show ?case
  proof (cases "search re l")
    case None
    then have n: "search_from re i l = None"
      using search_from_shift [of re i l 0] by (simp add: search_def)
    have "map_option snd (search_from re i (join_lines (l # l' # ls))) =
          map_option snd (search_from re (Suc (i + length l)) (join_lines (l' # ls)))"
      by (simp add: search_from_newline [OF re] n)
    also have "\<dots> = (case find (\<lambda>l. search re l \<noteq> None) (l' # ls) of
          None \<Rightarrow> None
        | Some l \<Rightarrow> map_option snd (search re l))"
      by (rule "3.IH") simp
    finally show ?thesis using None by simp
  next
    case (Some m)
    then obtain m' where m': "search_from re i l = Some m'" "snd m' = snd m"
      using search_from_shift [of re i l 0] by (cases "search_from re i l") (auto simp: search_def)
    have "search_from re i (join_lines (l # l' # ls)) = Some m'"
      by (simp add: search_from_newline [OF re] m')
    with Some m' show ?thesis by simp
  qed
qed

lemma search_join_lines:
  assumes "\<forall>k\<in>set re. newline \<notin> set k" and "ls \<noteq> []"
  shows "map_option snd (search re (join_lines ls)) =
       (case find (\<lambda>l. search re l \<noteq> None) ls of
          None \<Rightarrow> None
        | Some l \<Rightarrow> map_option snd (search re l))"
  unfolding search_def [of re "join_lines ls"]
  using search_from_join_lines [OF assms] .

lemma keys_no_newline: "k \<in> set (regex_of p) \<Longrightarrow> newline \<notin> set k"
  by (cases p)
     (auto simp: newline_def DEVICE_CODENAME_RE_def DEVICE_MANUFACTURER_RE_def
        DEVICE_PLATFORM_RE_def DEVICE_BRAND_RE_def DEVICE_MODEL_RE_def DEVICE_ARCH_RE_def)

lemma search_at:
  assumes "n \<le> length c" and "match_here re (drop n c) = Some g"
    and "\<forall>m<n. match_here re (drop m c) = None"
  shows "search re c = Some (n, g)"
  unfolding search_def using assms search_from_Some_iff [of re 0 c n g] by auto

lemma match_here_literal:
  "k \<in> set (regex_of p) \<Longrightarrow>
     match_here (regex_of p) (k @ s) = Some (takeWhile (\<lambda>c. c \<noteq> newline) s)"
  by (cases p)
     (auto simp: DEVICE_CODENAME_RE_def DEVICE_MANUFACTURER_RE_def
        DEVICE_PLATFORM_RE_def DEVICE_BRAND_RE_def DEVICE_MODEL_RE_def DEVICE_ARCH_RE_def
        atom_matches_def newline_def group_eol_eq)

lemma literal_key_found:
  assumes k: "k \<in> set (regex_of p)"
    and c: "c = pre @ k @ v @ rest"
    and v: "newline \<notin> set v"
    and rest: "at_eol rest"
    and first: "\<forall>j<length pre. match_here (regex_of p) (drop j c) = None"
  shows "search (regex_of p) c = Some (length pre, v)"
proof -
  have "drop (length pre) c = k @ v @ rest"
    by (simp add: c)
  then have "match_here (regex_of p) (drop (length pre) c) =
       Some (takeWhile (\<lambda>c. c \<noteq> newline) (v @ rest))"
    by (simp add: match_here_literal [OF k])
  then have "match_here (regex_of p) (drop (length pre) c) = Some v"
    by (simp add: takeWhile_line [OF v rest])
  moreover have "length pre \<le> length c"
    by (simp add: c)
  ultimately show ?thesis
    using first by (intro search_at) simp_all
qed



text \<open>The shape of every match: a key, then the rest of the line.\<close>

lemma search_SomeD:
  assumes "search re c = Some (n, g)"
  shows "\<exists>k\<in>set re. \<exists>m rest. list_all2 atom_matches k m \<and> drop n c = m @ g @ rest \<and>
     n \<le> length c \<and> newline \<notin> set g \<and> at_eol rest \<and>
     (\<forall>j<n. match_here re (drop j c) = None)"
proof -
  from assms obtain n: "n \<le> length c" and h: "match_here re (drop n c) = Some g"
    and first: "\<forall>j<n. match_here re (drop j c) = None"
    unfolding search_def using search_from_Some_iff [of re 0 c n g] by auto
  from match_here_SomeD [OF h] obtain k r where k: "k \<in> set re"
    and r: "match_key k (drop n c) = Some r" and g: "g = takeWhile (\<lambda>c. c \<noteq> newline) r"
    by blast
  from match_key_SomeD [OF r] obtain m where m: "drop n c = m @ r" "list_all2 atom_matches k m"
    by blast
  let ?rest = "dropWhile (\<lambda>c. c \<noteq> newline) r"
  have d: "drop n c = m @ g @ ?rest"
    by (simp add: m(1) g)
  have nl: "newline \<notin> set g"
    using set_takeWhileD [of newline "\<lambda>c. c \<noteq> newline" r] by (auto simp: g)
  have e: "at_eol ?rest" by (rule at_eol_dropWhile)
  from k m(2) d n nl e first show ?thesis by blast
qed



section \<open>The captured value\<close>

lemma init_field:
  assumes rd: "read_text e (absolute e file) = Some c"
    and ok: "init e file = Inr r"
    and s: "search (regex_of p) c = Some m"
  shows "field p r = post p (snd m)"
proof -
  from init_InrD [OF rd ok] obtain m1 m2 m3 m4 m5 m6 where m:
      "search DEVICE_CODENAME_RE c = Some m1"
      "search DEVICE_MANUFACTURER_RE c = Some m2"
      "search DEVICE_PLATFORM_RE c = Some m3"
      "search DEVICE_BRAND_RE c = Some m4"
      "search DEVICE_MODEL_RE c = Some m5"
      "search DEVICE_ARCH_RE c = Some m6"
    by blast
  from init_found [OF rd m] ok have r: "r =
     \<lparr> filename = absolute e file, content = c,
       codename = snd m1, manufacturer = lower (snd m2), platform = snd m3,
       brand = snd m4, model = snd m5, arch = parse_arch (snd m6),
       device_is_ab = (search DEVICE_IS_AB_RE c \<noteq> None),
       device_has_64bit_arch = (parse_arch (snd m6) \<in> {''arm64'', ''x86_64''}) \<rparr>"
    by simp
  show ?thesis
    using s m by (cases p) (simp_all add: r)
qed

lemma init_not_error:
  assumes rd: "read_text e (absolute e file) = Some c"
    and s: "search (regex_of p) c \<noteq> None"
  shows "init e file \<noteq>
     Inl (AssertionError (''Device '' @ name_of p @ '' could not be found in build.prop''))"
proof
  assume "init e file =
     Inl (AssertionError (''Device '' @ name_of p @ '' could not be found in build.prop''))"
  from init_InlD [OF rd this] obtain q where
    q: "find (\<lambda>p. search (regex_of p) c = None) required = Some q"
      "name_of p = name_of q"
    by auto
  from q(2) have "p = q" using inj_name_of by (auto dest: injD)
  moreover from q(1) have "search (regex_of q) c = None"
    by (auto simp: find_Some_iff)
  ultimately show False using s by simp
qed


text \<open>
  Claim C6, amended: a pattern is anchored at the end of a line only. Whatever it matches
  is a key followed by the whole rest of that line, up to the next newline or the end of
  the content; and a recognized key is matched wherever in a line it begins, at the start
  of the line or after other characters, as long as no match of the pattern begins
  earlier in the content: the captured value is then the rest of the line after the key.
\<close>

theorem key_matches_anywhere_in_line:
  "(\<forall>n g. search (regex_of p) c = Some (n, g) \<longrightarrow>
      (\<exists>k\<in>set (regex_of p). \<exists>m rest.
          list_all2 atom_matches k m \<and> drop n c = m @ g @ rest \<and>
          newline \<notin> set g \<and> at_eol rest)) \<and>
   (\<forall>pre k v rest.
      k \<in> set (regex_of p) \<and> c = pre @ k @ v @ rest \<and> newline \<notin> set v \<and> at_eol rest \<and>
      (\<forall>j<length pre. match_here (regex_of p) (drop j c) = None) \<longrightarrow>
      search (regex_of p) c = Some (length pre, v) \<and>
      get_prop c (regex_of p) (name_of p) = Inr v)"
proof (intro conjI allI impI)
  fix n g assume "search (regex_of p) c = Some (n, g)"
  from search_SomeD [OF this]
  show "\<exists>k\<in>set (regex_of p). \<exists>m rest.
          list_all2 atom_matches k m \<and> drop n c = m @ g @ rest \<and>
          newline \<notin> set g \<and> at_eol rest"
    by blast
next
  fix pre k v rest
  assume h: "k \<in> set (regex_of p) \<and> c = pre @ k @ v @ rest \<and> newline \<notin> set v \<and> at_eol rest \<and>
      (\<forall>j<length pre. match_here (regex_of p) (drop j c) = None)"
  then have s: "search (regex_of p) c = Some (length pre, v)"
    using literal_key_found [of k p c pre v rest] by blast
  then show "search (regex_of p) c = Some (length pre, v)" .
  from s show "get_prop c (regex_of p) (name_of p) = Inr v"
    by (simp add: get_prop_def)
qed

section \<open>Several keys for one field\<close>

lemma find_first_line:
  assumes i: "i < length ls" and s: "search re (ls ! i) = Some m"
    and first: "\<forall>j<i. search re (ls ! j) = None"
  shows "find (\<lambda>l. search re l \<noteq> None) ls = Some (ls ! i)"
  unfolding find_Some_iff using assms by (intro exI [of _ i]) simp

lemma first_line_wins:
  assumes i: "i < length ls" and m: "search (regex_of p) (ls ! i) = Some m"
    and first: "\<forall>j<i. search (regex_of p) (ls ! j) = None"
  shows "get_prop (join_lines ls) (regex_of p) (name_of p) = Inr (snd m)"
proof -
  from i have ne: "ls \<noteq> []" by auto
  have re: "\<forall>k\<in>set (regex_of p). newline \<notin> set k"
    using keys_no_newline by blast
  have f: "find (\<lambda>l. search (regex_of p) l \<noteq> None) ls = Some (ls ! i)"
    using i m first by (rule find_first_line)
  have "map_option snd (search (regex_of p) (join_lines ls)) = Some (snd m)"
    unfolding search_join_lines [OF re ne] f by (simp add: m)
  then show ?thesis
    by (auto simp: get_prop_def)
qed

lemma key_line_found:
  assumes k: "k \<in> set (regex_of p)" and v: "newline \<notin> set v"
  shows "search (regex_of p) (k @ v) = Some (0, v)"
proof -
  have "k @ v = [] @ k @ v @ []" by simp
  from literal_key_found [OF k this v] show ?thesis by simp
qed

text \<open>
  Claim C8, amended: the value of a field comes from the earliest match of its pattern in
  the content, a match being one of the keys, each dot standing for any character but a
  newline, at any position of a line. The position that matches with no match before it
  gives the value; in a content given by its lines, the first line in which the pattern
  matches gives the value, whatever the later lines hold; and so does a line that begins
  with a recognized key, whichever alternative it is, when the pattern matches in no line
  before it.
\<close>

theorem earliest_match_wins:
  "(\<forall>n g. n \<le> length c \<and> match_here (regex_of p) (drop n c) = Some g \<and>
      (\<forall>j<n. match_here (regex_of p) (drop j c) = None) \<longrightarrow>
      get_prop c (regex_of p) (name_of p) = Inr g) \<and>
   (\<forall>ls i m. c = join_lines ls \<and> i < length ls \<and>
      search (regex_of p) (ls ! i) = Some m \<and>
      (\<forall>j<i. search (regex_of p) (ls ! j) = None) \<longrightarrow>
      get_prop c (regex_of p) (name_of p) = Inr (snd m)) \<and>
   (\<forall>ls i k v. c = join_lines ls \<and> i < length ls \<and>
      k \<in> set (regex_of p) \<and> ls ! i = k @ v \<and> newline \<notin> set v \<and>
      (\<forall>j<i. search (regex_of p) (ls ! j) = None) \<longrightarrow>
      get_prop c (regex_of p) (name_of p) = Inr v)"
proof (intro conjI allI impI)
  fix n g
  assume "n \<le> length c \<and> match_here (regex_of p) (drop n c) = Some g \<and>
      (\<forall>j<n. match_here (regex_of p) (drop j c) = None)"
  then have "search (regex_of p) c = Some (n, g)"
    using search_at [of n c "regex_of p" g] by blast
  then show "get_prop c (regex_of p) (name_of p) = Inr g"
    by (simp add: get_prop_def)
next
  fix ls i m
  assume h: "c = join_lines ls \<and> i < length ls \<and>
      search (regex_of p) (ls ! i) = Some m \<and>
      (\<forall>j<i. search (regex_of p) (ls ! j) = None)"
  then show "get_prop c (regex_of p) (name_of p) = Inr (snd m)"
    using first_line_wins [of i ls p m] by blast
next
  fix ls i k v
  assume h: "c = join_lines ls \<and> i < length ls \<and>
      k \<in> set (regex_of p) \<and> ls ! i = k @ v \<and> newline \<notin> set v \<and>
      (\<forall>j<i. search (regex_of p) (ls ! j) = None)"
  then have "search (regex_of p) (ls ! i) = Some (0, v)"
    using key_line_found [of k p v] by simp
  with h show "get_prop c (regex_of p) (name_of p) = Inr v"
    using first_line_wins [of i ls p "(0, v)"] by auto
qed

section \<open>Empty values\<close>

lemma parse_arch_empty: "parse_arch [] = ''unknown''"
  by (simp add: parse_arch_def startswith_def)

lemma literal_key_present:
  assumes k: "k \<in> set (regex_of p)"
  shows "search (regex_of p) (pre @ k @ rest) \<noteq> None"
proof
  assume "search (regex_of p) (pre @ k @ rest) = None"
  then have "\<forall>n\<le>length (pre @ k @ rest).
      match_here (regex_of p) (drop n (pre @ k @ rest)) = None"
    unfolding search_def by (simp only: search_from_None_iff)
  moreover have "length pre \<le> length (pre @ k @ rest)"
    by simp
  ultimately have "match_here (regex_of p) (drop (length pre) (pre @ k @ rest)) = None"
    by blast
  then have "match_here (regex_of p) (k @ rest) = None"
    by simp
  with match_here_literal [OF k, of rest] show False
    by simp
qed

text \<open>
  Claim C10, amended: a recognized key counts as present whatever follows it, an empty
  rest of the line included: \<^verbatim>\<open>get_prop\<close> returns a value and construction does not raise
  the error of that property. Where the key is followed at once by the end of its line
  and is the earliest match of its pattern in the content, \<^verbatim>\<open>get_prop\<close> returns the empty
  string and in the record construction returns the field is the empty string; for the
  architecture the field is \<^verbatim>\<open>unknown\<close> and \<open>device_has_64bit_arch\<close> is false.
\<close>

theorem empty_value_is_present:
  assumes rd: "read_text e (absolute e file) = Some c"
    and k: "k \<in> set (regex_of p)"
    and c: "c = pre @ k @ rest"
  shows "(\<exists>v. get_prop c (regex_of p) (name_of p) = Inr v) \<and>
    init e file \<noteq>
      Inl (AssertionError (''Device '' @ name_of p @ '' could not be found in build.prop'')) \<and>
    (at_eol rest \<and> (\<forall>j<length pre. match_here (regex_of p) (drop j c) = None) \<longrightarrow>
       get_prop c (regex_of p) (name_of p) = Inr [] \<and>
       (\<forall>r. init e file = Inr r \<longrightarrow>
          field p r = (if p = Arch then ''unknown'' else []) \<and>
          (p = Arch \<longrightarrow> \<not> device_has_64bit_arch r)))"
proof (intro conjI impI)
  have found: "search (regex_of p) c \<noteq> None"
    unfolding c by (rule literal_key_present [OF k])
  then show "\<exists>v. get_prop c (regex_of p) (name_of p) = Inr v"
    by (cases "search (regex_of p) c") (simp_all add: get_prop_def)
  show "init e file \<noteq>
      Inl (AssertionError (''Device '' @ name_of p @ '' could not be found in build.prop''))"
    using found by (rule init_not_error [OF rd])
next
  assume h: "at_eol rest \<and> (\<forall>j<length pre. match_here (regex_of p) (drop j c) = None)"
  then have rest: "at_eol rest"
    and first: "\<forall>j<length pre. match_here (regex_of p) (drop j c) = None"
    by blast+
  have "c = pre @ k @ [] @ rest"
    by (simp add: c)
  from literal_key_found [OF k this _ rest first]
  have s: "search (regex_of p) c = Some (length pre, [])"
    by simp
  then show "get_prop c (regex_of p) (name_of p) = Inr []"
    by (simp add: get_prop_def)
  show "\<forall>r. init e file = Inr r \<longrightarrow>
       field p r = (if p = Arch then ''unknown'' else []) \<and>
       (p = Arch \<longrightarrow> \<not> device_has_64bit_arch r)"
  proof (intro allI impI)
    fix r assume ok: "init e file = Inr r"
    from init_field [OF rd ok s] have f: "field p r = post p []" by simp
    have "field p r = (if p = Arch then ''unknown'' else [])"
      using f by (cases p) (simp_all add: parse_arch_empty lower_def)
    moreover have "p = Arch \<longrightarrow> \<not> device_has_64bit_arch r"
    proof
      assume "p = Arch"
      with f have "arch r = ''unknown''" by (simp add: parse_arch_empty)
      with init_arch [OF rd ok] show "\<not> device_has_64bit_arch r" by auto
    qed
    ultimately show "field p r = (if p = Arch then ''unknown'' else []) \<and>
       (p = Arch \<longrightarrow> \<not> device_has_64bit_arch r)" ..
  qed
qed

section \<open>Well-formed files\<close>




section \<open>Instances\<close>

lemma all_less_list: "(\<forall>j<n. P j) \<longleftrightarrow> list_all P [0..<n]"
  by (auto simp: list_all_iff)

lemma init_empty:
  "init (sample_env empty_lines) ''build.prop'' =
     Inr \<lparr> filename = ''/work/build.prop'', content = join_lines empty_lines,
           codename = [], manufacturer = [], platform = [],
           brand = [], model = [], arch = ''unknown'',
           device_is_ab = False, device_has_64bit_arch = False \<rparr>"
  by code_simp

text \<open>
  Claim C6, as stated: a recognized key is matched only where it begins a line, and a key
  that stands after other characters of its line never produces a match. It fails on a
  file whose first line is \<^verbatim>\<open>persist.ro.product.device=walleye\<close>: the pattern of the codename
  matches at position 8 of the content, after \<^verbatim>\<open>persist.\<close>, and \<open>codename\<close> is \<^verbatim>\<open>walleye\<close>.
\<close>

theorem line_start_counterexample:
  "map_sum id codename (init (sample_env midline_lines) ''build.prop'') = Inr ''walleye'' \<and>
   search DEVICE_CODENAME_RE (join_lines midline_lines) = Some (8, ''walleye'') \<and>
   take 8 (join_lines midline_lines) = ''persist.''"
  by code_simp

lemma midline_facts:
  "join_lines midline_lines =
     ''persist.'' @ ''ro.product.device='' @ ''walleye'' @ drop 33 (join_lines midline_lines)"
  "at_eol (drop 33 (join_lines midline_lines))"
  "list_all (\<lambda>j. match_here (regex_of Codename) (drop j (join_lines midline_lines)) = None) [0..<8]"
  by code_simp+

theorem key_matches_anywhere_in_line_witness:
  "search (regex_of Codename) (join_lines midline_lines) = Some (8, ''walleye'') \<and>
   get_prop (join_lines midline_lines) (regex_of Codename) (name_of Codename) = Inr ''walleye''"
proof -
  have k: "''ro.product.device='' \<in> set (regex_of Codename)"
    by (simp add: DEVICE_CODENAME_RE_def)
  have v: "newline \<notin> set ''walleye''"
    by (simp add: newline_def)
  have "\<forall>j<8. match_here (regex_of Codename) (drop j (join_lines midline_lines)) = None"
    unfolding all_less_list by (rule midline_facts(3))
  then have first: "\<forall>j<length ''persist.''.
      match_here (regex_of Codename) (drop j (join_lines midline_lines)) = None"
    by simp
  from key_matches_anywhere_in_line [of Codename "join_lines midline_lines", THEN conjunct2,
      rule_format, of "''ro.product.device=''" "''persist.''" "''walleye''"
        "drop 33 (join_lines midline_lines)"]
    k midline_facts(1) v midline_facts(2) first
  show ?thesis by simp
qed

text \<open>
  Claim C8, as stated: with two or more recognized keys of a field on different lines,
  the value is the one of the recognized key that occurs earliest. It fails on a file
  that begins with the lines \<^verbatim>\<open>ro-system-device=bogus\<close>, \<^verbatim>\<open>ro.product.device=a\<close> and
  \<^verbatim>\<open>ro.system.device=b\<close>: no recognized key occurs in the first line, the earliest one is
  on the second line with the value \<^verbatim>\<open>a\<close>, and \<open>codename\<close> is \<^verbatim>\<open>bogus\<close>, since the dots of
  \<^verbatim>\<open>ro.system.device=\<close> match the dashes of the first line.
\<close>

theorem earliest_key_counterexample:
  "map_sum id codename (init (sample_env wildcard_lines) ''build.prop'') = Inr ''bogus'' \<and>
   \<not> occurs_in ''ro.product.device='' (wildcard_lines ! 0) \<and>
   \<not> occurs_in ''ro.system.device='' (wildcard_lines ! 0) \<and>
   \<not> occurs_in ''ro.vendor.device='' (wildcard_lines ! 0) \<and>
   \<not> occurs_in ''ro.product.system.device='' (wildcard_lines ! 0) \<and>
   wildcard_lines ! 1 = ''ro.product.device='' @ ''a'' \<and>
   wildcard_lines ! 2 = ''ro.system.device='' @ ''b''"
  by code_simp

text \<open>
  With \<^verbatim>\<open>ro.system.device=first\<close> on the first line and \<^verbatim>\<open>ro.product.device=second\<close> on the
  second, the value is \<^verbatim>\<open>first\<close>, though the key of the second line is the leftmost
  alternative of the pattern.
\<close>

theorem earliest_match_wins_witness:
  "get_prop (join_lines two_keys_lines) (regex_of Codename) (name_of Codename) = Inr ''first''"
proof -
  have i: "0 < length two_keys_lines"
    by (simp add: two_keys_lines_def)
  have k: "''ro.system.device='' \<in> set (regex_of Codename)"
    by (simp add: DEVICE_CODENAME_RE_def)
  have l: "two_keys_lines ! 0 = ''ro.system.device='' @ ''first''"
    by (simp add: two_keys_lines_def)
  have v: "newline \<notin> set ''first''"
    by (simp add: newline_def)
  from earliest_match_wins [of "join_lines two_keys_lines" Codename, THEN conjunct2,
      THEN conjunct2, rule_format, of two_keys_lines 0 "''ro.system.device=''" "''first''"]
    i k l v
  show ?thesis by simp
qed

text \<open>
  Claim C10, as stated: where a required key is present with an empty value, the field
  is the empty string. It fails on a file that begins with the lines
  \<^verbatim>\<open>ro_product_device=real\<close> and \<^verbatim>\<open>ro.product.device=\<close>: the only recognized key of the
  codename has an empty value, no recognized key occurs in the first line, and \<open>codename\<close>
  is \<^verbatim>\<open>real\<close>.
\<close>

theorem empty_value_counterexample:
  "map_sum id codename (init (sample_env shadowed_lines) ''build.prop'') = Inr ''real'' \<and>
   shadowed_lines ! 1 = ''ro.product.device='' \<and>
   \<not> occurs_in ''ro.product.device='' (shadowed_lines ! 0) \<and>
   \<not> occurs_in ''ro.system.device='' (shadowed_lines ! 0) \<and>
   \<not> occurs_in ''ro.vendor.device='' (shadowed_lines ! 0) \<and>
   \<not> occurs_in ''ro.product.system.device='' (shadowed_lines ! 0)"
  by code_simp

text \<open>
  A file in which every required key has an empty value, after a comment line: the key
  of the codename stands at position 15 and the key of the architecture at position 34.
\<close>

lemma empty_facts:
  "join_lines empty_lines =
     (''# empty values'' @ [newline]) @ ''ro.product.device='' @ drop 33 (join_lines empty_lines)"
  "at_eol (drop 33 (join_lines empty_lines))"
  "list_all (\<lambda>j. match_here (regex_of Codename) (drop j (join_lines empty_lines)) = None) [0..<15]"
  "join_lines empty_lines =
     (''# empty values'' @ [newline] @ ''ro.product.device='' @ [newline]) @
       ''ro.product.cpu.abi='' @ drop 53 (join_lines empty_lines)"
  "at_eol (drop 53 (join_lines empty_lines))"
  "list_all (\<lambda>j. match_here (regex_of Arch) (drop j (join_lines empty_lines)) = None) [0..<34]"
  by code_simp+

theorem empty_value_is_present_witness:
  "get_prop (join_lines empty_lines) (regex_of Codename) (name_of Codename) = Inr [] \<and>
   get_prop (join_lines empty_lines) (regex_of Arch) (name_of Arch) = Inr [] \<and>
   init (sample_env empty_lines) ''build.prop'' =
     Inr \<lparr> filename = ''/work/build.prop'', content = join_lines empty_lines,
           codename = [], manufacturer = [], platform = [],
           brand = [], model = [], arch = ''unknown'',
           device_is_ab = False, device_has_64bit_arch = False \<rparr>"
proof -
  have kc: "''ro.product.device='' \<in> set (regex_of Codename)"
    by (simp add: DEVICE_CODENAME_RE_def)
  have ka: "''ro.product.cpu.abi='' \<in> set (regex_of Arch)"
    by (simp add: DEVICE_ARCH_RE_def)
  have lc: "length (''# empty values'' @ [newline]) = 15"
    by simp
  have la: "length (''# empty values'' @ [newline] @ ''ro.product.device='' @ [newline]) = 34"
    by simp
  have fc: "\<forall>j<length (''# empty values'' @ [newline]).
      match_here (regex_of Codename) (drop j (join_lines empty_lines)) = None"
    unfolding lc all_less_list by (rule empty_facts(3))
  have fa: "\<forall>j<length (''# empty values'' @ [newline] @ ''ro.product.device='' @ [newline]).
      match_here (regex_of Arch) (drop j (join_lines empty_lines)) = None"
    unfolding la all_less_list by (rule empty_facts(6))
  from empty_value_is_present [OF read_sample kc empty_facts(1)] empty_facts(2) fc
  have c: "get_prop (join_lines empty_lines) (regex_of Codename) (name_of Codename) = Inr []"
    by blast
  from empty_value_is_present [OF read_sample ka empty_facts(4)] empty_facts(5) fa
  have a: "get_prop (join_lines empty_lines) (regex_of Arch) (name_of Arch) = Inr []"
    by blast
  from c a init_empty show ?thesis by simp
qed




end
